theory Spec2Isabelle
  imports Complex_Main "HOL-Library.Word"
begin

section \<open>Bytes, digits and hexadecimal text\<close>

text \<open>
  A Node \<open>Buffer\<close> is a sequence of bytes; a JavaScript string is modelled as a
  \<open>string\<close> of 8-bit characters, each standing for the code unit of the same number
  (every string that \<open>U256.ts\<close> builds itself is ASCII).
\<close>

type_synonym byte = "8 word"

text \<open>
  The digit alphabet shared by \<open>BigNumber.prototype.toString(base)\<close>,
  \<open>Number.prototype.toString(16)\<close> and the base-\<open>b\<close> reader of \<open>new BigNumber\<close>.
\<close>

definition ALPHABET :: string where
  "ALPHABET = ''0123456789abcdefghijklmnopqrstuvwxyz''"

text \<open>\<open>String.prototype.indexOf\<close> for a single character; \<open>None\<close> stands for \<open>-1\<close>.\<close>

fun indexOf :: "char \<Rightarrow> string \<Rightarrow> nat option" where
  "indexOf c [] = None"
| "indexOf c (x # xs) = (if c = x then Some 0 else map_option Suc (indexOf c xs))"

text \<open>The base-16 rendering of a non-negative integer: lowercase, no prefix, no padding.\<close>

fun hex_of_nat :: "nat \<Rightarrow> string" where
  "hex_of_nat n =
     (if n < 16 then [ALPHABET ! n]
      else hex_of_nat (n div 16) @ [ALPHABET ! (n mod 16)])"

declare hex_of_nat.simps [simp del]

definition is_digit :: "char \<Rightarrow> bool" where
  "is_digit c = (48 \<le> (of_char c :: nat) \<and> (of_char c :: nat) \<le> 57)"

definition is_lower :: "char \<Rightarrow> bool" where
  "is_lower c = (c \<in> set ''abcdefghijklmnopqrstuvwxyz'')"

definition is_upper :: "char \<Rightarrow> bool" where
  "is_upper c = (c \<in> set ''ABCDEFGHIJKLMNOPQRSTUVWXYZ'')"

text \<open>The classes \<open>\w\<close> and \<open>\s\<close> of a JavaScript regular expression, on code units below 256.\<close>

definition is_word :: "char \<Rightarrow> bool" where
  "is_word c = (is_digit c \<or> is_lower c \<or> is_upper c \<or> c = CHR ''_'')"

definition is_space :: "char \<Rightarrow> bool" where
  "is_space c = ((of_char c :: nat) \<in> {9, 10, 11, 12, 13, 32, 160})"

text \<open>The number of decimal digits of a non-negative integer.\<close>

fun dec_len :: "nat \<Rightarrow> nat" where
  "dec_len n = (if n < 10 then 1 else Suc (dec_len (n div 10)))"

declare dec_len.simps [simp del]

definition toLowerCase :: "string \<Rightarrow> string" where
  "toLowerCase s =
     map (\<lambda>c. case indexOf c ''ABCDEFGHIJKLMNOPQRSTUVWXYZ'' of
                None \<Rightarrow> c
              | Some i \<Rightarrow> ''abcdefghijklmnopqrstuvwxyz'' ! i) s"

text \<open>
  The value of a digit string in base \<open>b\<close>, most significant digit first; a character
  outside the first \<open>b\<close> letters of the alphabet makes the whole string invalid.
\<close>

fun digits_value :: "nat \<Rightarrow> nat \<Rightarrow> string \<Rightarrow> nat option" where
  "digits_value b acc [] = Some acc"
| "digits_value b acc (c # cs) =
     (case indexOf c (take b ALPHABET) of
        None \<Rightarrow> None
      | Some d \<Rightarrow> digits_value b (acc * b + d) cs)"

section \<open>The arbitrary-precision number of \<open>bignumber.js\<close>\<close>

text \<open>
  \<open>bignumber.js\<close> is an npm dependency of the package, not part of its sources. Its
  values are modelled after the library's documentation: not-a-number, the two
  infinities, negative zero (whose sign the library keeps and \<open>isNegative\<close> reports),
  and the finite values, which are exact decimals and hence rationals. \<open>Finite 0\<close> is
  positive zero. In its default configuration (\<open>DEBUG\<close> unset) no operation of the
  library used here throws: an input that is not a number yields \<open>NaN\<close>.
\<close>

datatype BigNumber = NaN | Infinity bool | NegZero | Finite rat

fun isInteger :: "BigNumber \<Rightarrow> bool" where
  "isInteger NaN = False"
| "isInteger (Infinity neg) = False"
| "isInteger NegZero = True"
| "isInteger (Finite r) = (rat_of_int \<lfloor>r\<rfloor> = r)"

fun isNegative :: "BigNumber \<Rightarrow> bool" where
  "isNegative NaN = False"
| "isNegative (Infinity neg) = neg"
| "isNegative NegZero = True"
| "isNegative (Finite r) = (r < 0)"

fun numeric :: "BigNumber \<Rightarrow> rat" where
  "numeric (Finite r) = r"
| "numeric x = 0"

fun isLessThanOrEqualTo :: "BigNumber \<Rightarrow> BigNumber \<Rightarrow> bool" where
  "isLessThanOrEqualTo NaN y = False"
| "isLessThanOrEqualTo x NaN = False"
| "isLessThanOrEqualTo (Infinity a) (Infinity b) = (a \<or> \<not> b)"
| "isLessThanOrEqualTo (Infinity a) y = a"
| "isLessThanOrEqualTo x (Infinity b) = (\<not> b)"
| "isLessThanOrEqualTo x y = (numeric x \<le> numeric y)"

fun bn_isEqualTo :: "BigNumber \<Rightarrow> BigNumber \<Rightarrow> bool" where
  "bn_isEqualTo NaN y = False"
| "bn_isEqualTo x NaN = False"
| "bn_isEqualTo (Infinity a) (Infinity b) = (a = b)"
| "bn_isEqualTo (Infinity a) y = False"
| "bn_isEqualTo x (Infinity b) = False"
| "bn_isEqualTo x y = (numeric x = numeric y)"

text \<open>\<open>x.plus(y)\<close>. A sum that cancels is positive zero; only \<open>-0 + -0\<close> is \<open>-0\<close>.\<close>

fun bn_plus :: "BigNumber \<Rightarrow> BigNumber \<Rightarrow> BigNumber" where
  "bn_plus NaN y = NaN"
| "bn_plus x NaN = NaN"
| "bn_plus (Infinity a) (Infinity b) = (if a = b then Infinity a else NaN)"
| "bn_plus (Infinity a) y = Infinity a"
| "bn_plus x (Infinity b) = Infinity b"
| "bn_plus NegZero NegZero = NegZero"
| "bn_plus x y = Finite (numeric x + numeric y)"

text \<open>
  \<open>x.toString(16)\<close>. \<open>U256.ts\<close> renders a value only after \<open>isInteger\<close> has
  accepted it (in the constructor) or as the value of a constructed instance; for a
  value with a fractional part the library would append a point and fractional digits,
  which this model leaves out.
\<close>

fun toString16 :: "BigNumber \<Rightarrow> string" where
  "toString16 NaN = ''NaN''"
| "toString16 (Infinity neg) = (if neg then ''-Infinity'' else ''Infinity'')"
| "toString16 NegZero = ''0''"
| "toString16 (Finite r) = (if r < 0 then ''-'' else []) @ hex_of_nat (nat \<lfloor>\<bar>r\<bar>\<rfloor>)"

subsection \<open>Reading a string: \<open>new BigNumber(string)\<close>\<close>

text \<open>
  The reader follows the library's constructor for a string argument:
  \<^item> leading and trailing white space is dropped, and so is a plus sign in front of the
    first character when a word character or a point follows it;
  \<^item> decimal notation \<open>-?(\d+(\.\d*)?|\.\d+)(e[+-]?\d+)?\<close> (the \<open>e\<close> in either case) is
    read exactly; a magnitude whose decimal exponent leaves the library's default
    \<open>RANGE\<close> of \<open>\<plusminus>1e7\<close> becomes an infinity or a zero;
  \<^item> \<open>Infinity\<close> and \<open>NaN\<close> are read with an optional minus sign;
  \<^item> an optional minus sign, then \<open>0x\<close>, \<open>0b\<close> or \<open>0o\<close> (in either case), then at
    least one word character and only word characters and points, is read in base 16, 2
    or 8: the digits' letters are all lowercase or all uppercase, one point may follow
    the first digit, and a value with a fraction is rounded half up to the library's
    default 20 decimal places; where the digits are not valid the library looks for
    \<open>Infinity\<close> and \<open>NaN\<close>, drops a repeated prefix of the same base and a final
    point, and reads what is left in the same base;
  \<^item> every other string is not a number.
  \<open>U256.ts\<close> itself only ever builds strings of the fourth form, without a point.
\<close>

definition MAX_EXP :: int where
  "MAX_EXP = 10000000"

definition signed_zero :: "bool \<Rightarrow> BigNumber" where
  "signed_zero neg = (if neg then NegZero else Finite 0)"

text \<open>
  The replacement of \<open>/^\s*\+(?=[\w.])|^\s+|\s+$/g\<close> by the empty string.
\<close>

definition strip :: "string \<Rightarrow> string" where
  "strip str =
     (let t = dropWhile is_space str;
          u = (case t of
                 c # d # r \<Rightarrow>
                   if c = CHR ''+'' \<and> (is_word d \<or> d = CHR ''.'') then d # r else t
               | _ \<Rightarrow> t)
      in rev (dropWhile is_space (rev u)))"

definition split_sign :: "string \<Rightarrow> bool \<times> string" where
  "split_sign s =
     (case s of [] \<Rightarrow> (False, [])
      | c # r \<Rightarrow> if c = CHR ''-'' then (True, r) else (False, s))"

definition parse_exponent :: "string \<Rightarrow> int option" where
  "parse_exponent s =
     (case s of [] \<Rightarrow> None
      | c # r \<Rightarrow>
          let neg = (c = CHR ''-'');
              ds = (if c = CHR ''-'' \<or> c = CHR ''+'' then r else s)
          in (if ds = [] then None
              else case digits_value 10 0 ds of
                     None \<Rightarrow> None
                   | Some n \<Rightarrow> Some (if neg then - int n else int n)))"

text \<open>
  Splits an unsigned decimal literal into its integer digits, its fraction digits and
  its exponent; \<open>None\<close> when the string does not match the decimal grammar.
\<close>

definition parse_decimal :: "string \<Rightarrow> (string \<times> string \<times> int) option" where
  "parse_decimal s =
     (let ip = takeWhile is_digit s;
          r1 = dropWhile is_digit s;
          dot = (r1 \<noteq> [] \<and> hd r1 = CHR ''.'');
          fp = (if dot then takeWhile is_digit (tl r1) else []);
          r2 = (if dot then dropWhile is_digit (tl r1) else r1)
      in if ip = [] \<and> fp = [] then None
         else (case r2 of
                 [] \<Rightarrow> Some (ip, fp, 0)
               | c # t \<Rightarrow>
                   if c = CHR ''e'' \<or> c = CHR ''E''
                   then map_option (\<lambda>e. (ip, fp, e)) (parse_exponent t)
                   else None))"

definition decimal_value :: "bool \<Rightarrow> string \<Rightarrow> string \<Rightarrow> int \<Rightarrow> BigNumber" where
  "decimal_value neg ip fp ex =
     (let ds = ip @ fp;
          i = length (takeWhile (\<lambda>c. c = CHR ''0'') ds);
          e = int (length ip) + ex - int i - 1
      in if i = length ds then signed_zero neg
         else if e > MAX_EXP then Infinity neg
         else if e < - MAX_EXP then signed_zero neg
         else if int (length fp) \<le> ex
         then Finite ((if neg then - 1 else 1) *
                rat_of_nat (the (digits_value 10 0 ds)) * 10 ^ nat (ex - int (length fp)))
         else Finite ((if neg then - 1 else 1) *
                rat_of_nat (the (digits_value 10 0 ds)) / 10 ^ nat (int (length fp) - ex)))"

definition base_of_prefix :: "char \<Rightarrow> nat option" where
  "base_of_prefix c =
     (if c = CHR ''x'' \<or> c = CHR ''X'' then Some 16
      else if c = CHR ''b'' \<or> c = CHR ''B'' then Some 2
      else if c = CHR ''o'' \<or> c = CHR ''O'' then Some 8
      else None)"

text \<open>
  What may follow a base prefix: \<open>\w[\w.]*\<close> up to the end of the string.
\<close>

definition prefix_rest :: "string \<Rightarrow> bool" where
  "prefix_rest t =
     (t \<noteq> [] \<and> is_word (hd t) \<and> list_all (\<lambda>c. is_word c \<or> c = CHR ''.'') t)"

text \<open>
  The digits after a prefix, split at the point: a point must not come first and must
  not occur twice.
\<close>

definition split_dot :: "string \<Rightarrow> (string \<times> string) option" where
  "split_dot t =
     (let ip = takeWhile (\<lambda>c. c \<noteq> CHR ''.'') t;
          r = dropWhile (\<lambda>c. c \<noteq> CHR ''.'') t
      in case r of
           [] \<Rightarrow> Some (ip, [])
         | c # fp \<Rightarrow> if ip = [] \<or> CHR ''.'' \<in> set fp then None else Some (ip, fp))"

text \<open>
  The check that a string is a number of base \<open>b\<close>: the value of its digits and the
  number of digits behind the point. A string without lowercase letters is read in
  lowercase.
\<close>

definition base_digits :: "nat \<Rightarrow> string \<Rightarrow> (nat \<times> nat) option" where
  "base_digits b t =
     (case split_dot (if list_ex is_lower t then t else toLowerCase t) of
        None \<Rightarrow> None
      | Some (ip, fp) \<Rightarrow>
          (case digits_value b 0 (ip @ fp) of
             None \<Rightarrow> None
           | Some n \<Rightarrow> Some (n, length fp)))"

text \<open>
  The number with digits' value \<open>n\<close> and \<open>k\<close> digits behind the point, in base \<open>b\<close>:
  a whole number is exact, a fraction is rounded half up at 20 decimal places
  (\<open>DECIMAL_PLACES\<close>, \<open>ROUNDING_MODE\<close>), and the decimal exponent is held against
  \<open>MAX_EXP\<close>.
\<close>

definition base_number :: "bool \<Rightarrow> nat \<Rightarrow> nat \<Rightarrow> nat \<Rightarrow> BigNumber" where
  "base_number neg b n k =
     (let m = (if k = 0 then rat_of_nat n
               else rat_of_int \<lfloor>rat_of_nat n / rat_of_nat b ^ k * 10 ^ 20 + 1 / 2\<rfloor> / 10 ^ 20)
      in if m = 0 then signed_zero neg
         else if MAX_EXP < int (dec_len (nat \<lfloor>m\<rfloor>)) - 1 then Infinity neg
         else Finite (if neg then - m else m))"

text \<open>
  The second look at a string whose digits are not valid: a prefix of the same base is
  dropped, then a final point when there is no other.
\<close>

definition drop_prefix :: "nat \<Rightarrow> string \<Rightarrow> string" where
  "drop_prefix b t =
     (case t of
        z # p # r \<Rightarrow>
          if z = CHR ''0'' \<and> base_of_prefix p = Some b \<and> prefix_rest r then r else t
      | _ \<Rightarrow> t)"

definition drop_point :: "string \<Rightarrow> string" where
  "drop_point t =
     (if butlast t \<noteq> [] \<and> last t = CHR ''.'' \<and> CHR ''.'' \<notin> set (butlast t)
      then butlast t else t)"

text \<open>
  \<open>new BigNumber(s, b)\<close> for a string \<open>s\<close> that is a minus sign or none and then
  \<open>rest\<close>. The library starts over when the second look has changed the string; a
  changed string is a shorter one.
\<close>

fun base_value :: "bool \<Rightarrow> nat \<Rightarrow> string \<Rightarrow> BigNumber" where
  "base_value neg b rest =
     (case base_digits b rest of
        Some (n, k) \<Rightarrow> base_number neg b n k
      | None \<Rightarrow>
          if rest = ''Infinity'' then Infinity neg
          else if rest = ''NaN'' then NaN
          else if length (drop_point (drop_prefix b rest)) < length rest
          then base_value neg b (drop_point (drop_prefix b rest))
          else NaN)"

declare base_value.simps [simp del]

definition BigNumber_of_string :: "string \<Rightarrow> BigNumber" where
  "BigNumber_of_string str =
     (let (neg, s) = split_sign (strip str)
      in case parse_decimal s of
           Some (ip, fp, ex) \<Rightarrow> decimal_value neg ip fp ex
         | None \<Rightarrow>
             if s = ''Infinity'' then Infinity neg
             else if s = ''NaN'' then NaN
             else (case s of
                     z # p # ds \<Rightarrow>
                       (if z = CHR ''0'' \<and> prefix_rest ds then
                          (case base_of_prefix p of
                             Some b \<Rightarrow> base_value neg b ds
                           | None \<Rightarrow> NaN)
                        else NaN)
                   | _ \<Rightarrow> NaN))"

subsection \<open>Reading a native number: \<open>new BigNumber(number)\<close>\<close>

text \<open>
  A JavaScript \<open>number\<close> is a double. The library reads a finite one through its
  decimal rendering \<open>String(n)\<close>, so \<open>NumFinite r\<close> stands for the double whose
  rendering denotes the rational \<open>r\<close> (for a whole number below \<open>2^53\<close> that is the
  number itself). A double is whole exactly when its rendering is, and has the sign of
  its rendering, so \<open>Number.isInteger\<close> and \<open>>= 0\<close> can be read off \<open>r\<close>.
\<close>

datatype jsnumber = NumNaN | NumInfinity bool | NumNegZero | NumFinite rat

fun Number_isInteger :: "jsnumber \<Rightarrow> bool" where
  "Number_isInteger NumNaN = False"
| "Number_isInteger (NumInfinity neg) = False"
| "Number_isInteger NumNegZero = True"
| "Number_isInteger (NumFinite r) = (rat_of_int \<lfloor>r\<rfloor> = r)"

text \<open>The comparison \<open>n >= 0\<close> on doubles: false for \<open>NaN\<close>, true for \<open>-0\<close>.\<close>

fun ge_zero :: "jsnumber \<Rightarrow> bool" where
  "ge_zero NumNaN = False"
| "ge_zero (NumInfinity neg) = (\<not> neg)"
| "ge_zero NumNegZero = True"
| "ge_zero (NumFinite r) = (0 \<le> r)"

fun BigNumber_of_number :: "jsnumber \<Rightarrow> BigNumber" where
  "BigNumber_of_number NumNaN = NaN"
| "BigNumber_of_number (NumInfinity neg) = Infinity neg"
| "BigNumber_of_number NumNegZero = NegZero"
| "BigNumber_of_number (NumFinite r) = Finite r"

section \<open>The class \<open>U256\<close>\<close>

text \<open>The argument of the constructor: \<open>number | string | BigNumber\<close>.\<close>

datatype value_input = VNumber jsnumber | VString string | VBigNumber BigNumber

text \<open>\<open>new BigNumber(value)\<close>; a \<open>BigNumber\<close> argument is copied.\<close>

fun BigNumber_new :: "value_input \<Rightarrow> BigNumber" where
  "BigNumber_new (VNumber n) = BigNumber_of_number n"
| "BigNumber_new (VString s) = BigNumber_of_string s"
| "BigNumber_new (VBigNumber b) = b"

text \<open>
  An instance has the one public field \<open>value\<close>, written \<open>val\<close> here.
\<close>

record U256 =
  val :: BigNumber

text \<open>The argument of \<open>check\<close> and \<open>ensure\<close>: \<open>U256 | string | number | BigNumber\<close>.\<close>

datatype param = PU256 U256 | PString string | PNumber jsnumber | PBigNumber BigNumber

text \<open>
  The four \<open>throw Error(...)\<close> sites of the class, in source order: the two of the
  constructor and the two of \<open>fromBytes\<close>.
\<close>

datatype error = NotPositiveInteger | OutOfRange | BufferTooLong | InvalidRLP

definition MAX_VALUE :: BigNumber where
  "MAX_VALUE =
     BigNumber_of_string
       ''0xFFFFFFFFFFFFFFFFFFFFFFFFFFFFFFFFFFFFFFFFFFFFFFFFFFFFFFFFFFFFFFFF''"

definition new_U256 :: "value_input \<Rightarrow> error + U256" where
  "new_U256 v =
     (let this_value = BigNumber_new v
      in if \<not> isInteger this_value \<or> isNegative this_value then Inl NotPositiveInteger
         else if length (toString16 this_value) > 64 then Inl OutOfRange
         else Inr \<lparr>val = this_value\<rparr>)"

fun checkString :: "param \<Rightarrow> bool" where
  "checkString (PString s) =
     (let num = BigNumber_of_string s
      in isInteger num \<and> \<not> isNegative num \<and> isLessThanOrEqualTo num MAX_VALUE)"
| "checkString p = False"

fun check :: "param \<Rightarrow> bool" where
  "check (PU256 u) = True"
| "check (PBigNumber b) =
     (isInteger b \<and> \<not> isNegative b \<and> isLessThanOrEqualTo b MAX_VALUE)"
| "check (PNumber n) = (Number_isInteger n \<and> ge_zero n)"
| "check p = checkString p"

fun ensure :: "param \<Rightarrow> error + U256" where
  "ensure (PU256 u) = Inr u"
| "ensure (PString s) = new_U256 (VString s)"
| "ensure (PNumber n) = new_U256 (VNumber n)"
| "ensure (PBigNumber b) = new_U256 (VBigNumber b)"

definition increase :: "U256 \<Rightarrow> error + U256" where
  "increase this = new_U256 (VBigNumber (bn_plus (val this) (BigNumber_of_number (NumFinite 1))))"

definition isEqualTo :: "U256 \<Rightarrow> U256 \<Rightarrow> bool" where
  "isEqualTo this rhs = bn_isEqualTo (val this) (val rhs)"

text \<open>The result of \<open>toEncodeObject\<close>: \<open>string | number\<close>.\<close>

datatype encode_object = EncString string | EncNumber nat

definition toEncodeObject :: "U256 \<Rightarrow> encode_object" where
  "toEncodeObject this =
     (let hex = toString16 (val this)
      in if hex = ''0'' then EncNumber 0
         else if length hex mod 2 = 0 then EncString (''0x'' @ hex)
         else EncString (''0x0'' @ hex))"

section \<open>The codec of the \<open>rlp\<close> package\<close>

text \<open>
  \<open>rlp\<close> is an npm dependency as well. \<open>RLP.encode\<close> of a value that is not an array
  turns it into a buffer and frames it: one byte below \<open>0x80\<close> is its own encoding,
  any other buffer follows its length header. The note in \<open>toEncodeObject\<close> that
  \<open>RLP.encode("0x0")\<close> results in \<open>00\<close> is the first rule at work. A number is
  turned into the bytes of its even-length hexadecimal rendering, and \<open>0\<close> into the
  empty buffer.
\<close>

definition hex_digit :: "char \<Rightarrow> nat option" where
  "hex_digit c =
     (case indexOf c (take 16 ALPHABET) of
        Some d \<Rightarrow> Some d
      | None \<Rightarrow> map_option (\<lambda>d. d + 10) (indexOf c ''ABCDEF''))"

text \<open>\<open>Buffer.from(s, 'hex')\<close>: two digits a byte, stopping at the first pair that is not hexadecimal.\<close>

fun from_hex :: "string \<Rightarrow> byte list" where
  "from_hex (a # b # r) =
     (case (hex_digit a, hex_digit b) of
        (Some x, Some y) \<Rightarrow> of_nat (16 * x + y) # from_hex r
      | _ \<Rightarrow> [])"
| "from_hex s = []"

definition padToEven :: "string \<Rightarrow> string" where
  "padToEven a = (if length a mod 2 \<noteq> 0 then CHR ''0'' # a else a)"

definition intToHex :: "nat \<Rightarrow> string" where
  "intToHex i = padToEven (hex_of_nat i)"

definition toBuffer :: "encode_object \<Rightarrow> byte list" where
  "toBuffer v =
     (case v of
        EncString s \<Rightarrow>
          if take 2 s = ''0x'' then from_hex (padToEven (drop 2 s))
          else map of_char s
      | EncNumber n \<Rightarrow> if n = 0 then [] else from_hex (intToHex n))"

definition encodeLength :: "nat \<Rightarrow> nat \<Rightarrow> byte list" where
  "encodeLength len offset =
     (if len < 56 then [of_nat (len + offset)]
      else let hexLength = intToHex len;
               lLength = length hexLength div 2;
               firstByte = intToHex (offset + 55 + lLength)
           in from_hex (firstByte @ hexLength))"

definition RLP_encode :: "encode_object \<Rightarrow> byte list" where
  "RLP_encode input =
     (let buf = toBuffer input
      in if length buf = 1 \<and> hd buf < 128 then buf
         else encodeLength (length buf) 128 @ buf)"

section \<open>Encoding and decoding a \<open>U256\<close>\<close>

definition rlpBytes :: "U256 \<Rightarrow> byte list" where
  "rlpBytes this = RLP_encode (toEncodeObject this)"

definition byte_hex :: "byte \<Rightarrow> string" where
  "byte_hex b = (if b < 0x10 then CHR ''0'' # hex_of_nat (unat b) else hex_of_nat (unat b))"

text \<open>
  \<open>fromBytes\<close>. On an empty buffer \<open>shift()\<close> yields \<open>undefined\<close> and the length is
  \<open>NaN\<close>: \<open>NaN > 32\<close> is false and \<open>0 !== NaN\<close> is true, so the second \<open>throw\<close>
  is taken. Otherwise the length is the first byte minus \<open>0x80\<close>, possibly negative.
\<close>

definition fromBytes :: "byte list \<Rightarrow> error + U256" where
  "fromBytes buffer =
     (case buffer of
        [] \<Rightarrow> Inl InvalidRLP
      | first # bytes \<Rightarrow>
          let len = uint first - 0x80
          in if len > 32 then Inl BufferTooLong
             else if int (length bytes) \<noteq> len then Inl InvalidRLP
             else if len = 0 then new_U256 (VNumber (NumFinite 0))
             else new_U256 (VString (''0x'' @ concat (map byte_hex bytes))))"

text \<open>
  The number a byte sequence denotes, most significant byte first. It is not a function
  of the source: it states what a decoded payload is worth.
\<close>

definition be_value :: "byte list \<Rightarrow> nat" where
  "be_value bs = foldl (\<lambda>a b. a * 256 + unat b) 0 bs"

text \<open>
  The invariants I1 and I2 of the data model: the value is a whole number between \<open>0\<close>
  and \<open>2^256 - 1\<close>.
\<close>

definition U256_invariant :: "U256 \<Rightarrow> bool" where
  "U256_invariant u =
     (case val u of
        Finite r \<Rightarrow> rat_of_int \<lfloor>r\<rfloor> = r \<and> 0 \<le> r \<and> r \<le> 2 ^ 256 - 1
      | _ \<Rightarrow> False)"

section \<open>Facts about the digit functions\<close>

lemmas string_eval =
  BigNumber_of_string_def strip_def split_sign_def parse_decimal_def parse_exponent_def
  decimal_value_def base_of_prefix_def prefix_rest_def split_dot_def base_digits_def
  base_number_def drop_prefix_def drop_point_def base_value.simps dec_len.simps
  is_digit_def is_lower_def is_upper_def is_word_def is_space_def
  toLowerCase_def ALPHABET_def signed_zero_def MAX_EXP_def

lemma take16: "take 16 ALPHABET = ''0123456789abcdef''"
  by (simp add: ALPHABET_def)

lemma lt16_cases:
  "d < 16 \<Longrightarrow> d = 0 \<or> d = 1 \<or> d = 2 \<or> d = 3 \<or> d = 4 \<or> d = 5 \<or> d = 6 \<or> d = 7 \<or>
     d = 8 \<or> d = 9 \<or> d = 10 \<or> d = 11 \<or> d = 12 \<or> d = 13 \<or> d = 14 \<or> d = (15::nat)"
  by arith

lemma indexOf_hexchar: "d < 16 \<Longrightarrow> indexOf (ALPHABET ! d) (take 16 ALPHABET) = Some d"
  by (drule lt16_cases) (auto simp: ALPHABET_def)

lemma indexOf_bound: "indexOf c xs = Some d \<Longrightarrow> d < length xs \<and> xs ! d = c"
  by (induction xs arbitrary: d) (auto split: if_splits)

lemma digits_value_append:
  "digits_value b acc (xs @ ys) =
     (case digits_value b acc xs of None \<Rightarrow> None | Some a \<Rightarrow> digits_value b a ys)"
  by (induction xs arbitrary: acc) (auto split: option.splits)

lemma digits_value_hex_of_nat:
  "digits_value 16 acc (hex_of_nat n) = Some (acc * 16 ^ length (hex_of_nat n) + n)"
proof (induction n arbitrary: acc rule: hex_of_nat.induct)
  case (1 n)
  show ?case
  proof (cases "n < 16")
    case True
    then show ?thesis
      by (simp add: hex_of_nat.simps [of n] indexOf_hexchar)
  next
    case False
    have m: "n mod 16 < 16" by simp
    have "n div 16 * 16 + n mod 16 = n" by simp
    then have "acc * 16 ^ length (hex_of_nat (n div 16)) * 16 + n div 16 * 16 + n mod 16 =
        acc * (16 * 16 ^ length (hex_of_nat (n div 16))) + n"
      by (simp add: algebra_simps)
    with False "1.IH" [OF False] show ?thesis
      by (simp add: hex_of_nat.simps [of n] digits_value_append indexOf_hexchar [OF m]
          algebra_simps)
  qed
qed

lemma hex_of_nat_nonempty: "hex_of_nat n \<noteq> []"
  by (subst hex_of_nat.simps) simp

lemma hex_of_nat_upper: "n < 16 ^ length (hex_of_nat n)"
proof (induction n rule: hex_of_nat.induct)
  case (1 n)
  show ?case
  proof (cases "n < 16")
    case True
    then show ?thesis by (simp add: hex_of_nat.simps [of n])
  next
    case False
    from "1.IH" [OF False] have "n div 16 < 16 ^ length (hex_of_nat (n div 16))" .
    then have "n < 16 * 16 ^ length (hex_of_nat (n div 16))" by simp
    with False show ?thesis by (simp add: hex_of_nat.simps [of n])
  qed
qed

lemma hex_of_nat_lower: "0 < n \<Longrightarrow> 16 ^ (length (hex_of_nat n) - 1) \<le> n"
proof (induction n rule: hex_of_nat.induct)
  case (1 n)
  show ?case
  proof (cases "n < 16")
    case True
    with "1.prems" show ?thesis by (simp add: hex_of_nat.simps [of n])
  next
    case False
    then have pos: "0 < n div 16" by simp
    from "1.IH" [OF False pos]
    have "16 ^ (length (hex_of_nat (n div 16)) - 1) \<le> n div 16" .
    then have "16 * 16 ^ (length (hex_of_nat (n div 16)) - 1) \<le> n" by simp
    moreover have "length (hex_of_nat (n div 16)) \<noteq> 0"
      using hex_of_nat_nonempty by simp
    ultimately have "16 ^ length (hex_of_nat (n div 16)) \<le> n"
      by (cases "length (hex_of_nat (n div 16))") simp_all
    with False show ?thesis by (simp add: hex_of_nat.simps [of n])
  qed
qed

lemma hex_length_le_iff:
  assumes "0 < k"
  shows "length (hex_of_nat n) \<le> k \<longleftrightarrow> n < 16 ^ k"
proof
  assume "length (hex_of_nat n) \<le> k"
  then have "(16::nat) ^ length (hex_of_nat n) \<le> 16 ^ k"
    by (simp add: power_increasing)
  with hex_of_nat_upper [of n] show "n < 16 ^ k" by (rule less_le_trans)
next
  assume lt: "n < 16 ^ k"
  show "length (hex_of_nat n) \<le> k"
  proof (cases "n = 0")
    case True
    then show ?thesis using assms by (simp add: hex_of_nat.simps [of 0])
  next
    case False
    then have "16 ^ (length (hex_of_nat n) - 1) \<le> n"
      using hex_of_nat_lower by simp
    from this lt have "(16::nat) ^ (length (hex_of_nat n) - 1) < 16 ^ k"
      by (rule le_less_trans)
    then have "length (hex_of_nat n) - 1 < k" by (simp add: power_strict_increasing_iff)
    then show ?thesis by simp
  qed
qed

lemma isInteger_Finite_Ints: "isInteger (Finite r) \<longleftrightarrow> r \<in> \<int>"
  by (metis Ints_of_int isInteger.simps(4) Ints_cases floor_of_int)

lemma nonneg_integer_iff:
  "isInteger b \<and> \<not> isNegative b \<longleftrightarrow> (\<exists>n. b = Finite (rat_of_nat n))"
proof
  assume a: "isInteger b \<and> \<not> isNegative b"
  then obtain r where b: "b = Finite r" by (cases b) auto
  with a have r: "rat_of_int \<lfloor>r\<rfloor> = r" "0 \<le> r" by auto
  then have "0 \<le> \<lfloor>r\<rfloor>" by simp
  then have "rat_of_nat (nat \<lfloor>r\<rfloor>) = r" using r(1) by (metis of_nat_nat)
  with b have "b = Finite (rat_of_nat (nat \<lfloor>r\<rfloor>))" by simp
  then show "\<exists>n. b = Finite (rat_of_nat n)" by (rule exI)
next
  assume "\<exists>n. b = Finite (rat_of_nat n)"
  then show "isInteger b \<and> \<not> isNegative b" by auto
qed

lemma toString16_nat: "toString16 (Finite (rat_of_nat n)) = hex_of_nat n"
  by simp

lemma MAX_VALUE_eq: "MAX_VALUE = Finite (2 ^ 256 - 1)"
  by (simp add: MAX_VALUE_def string_eval)

lemma new_U256_nat:
  "new_U256 (VBigNumber (Finite (rat_of_nat n))) =
     (if n < 2 ^ 256 then Inr \<lparr>val = Finite (rat_of_nat n)\<rparr> else Inl OutOfRange)"
proof -
  have "length (hex_of_nat n) \<le> 64 \<longleftrightarrow> n < 16 ^ 64"
    by (rule hex_length_le_iff) simp
  moreover have "(16::nat) ^ 64 = 2 ^ 256" by simp
  ultimately have "64 < length (hex_of_nat n) \<longleftrightarrow> \<not> n < 2 ^ 256" by auto
  then show ?thesis by (simp add: new_U256_def)
qed

lemma digits_value_chars:
  "digits_value b acc ds = Some n \<Longrightarrow> set ds \<subseteq> set (take b ALPHABET)"
proof (induction ds arbitrary: acc)
  case Nil
  then show ?case by simp
next
  case (Cons c cs)
  from Cons.prems obtain d where d: "indexOf c (take b ALPHABET) = Some d"
    and rest: "digits_value b (acc * b + d) cs = Some n"
    by (auto split: option.splits)
  from indexOf_bound [OF d] have "c \<in> set (take b ALPHABET)"
    by (metis nth_mem)
  with Cons.IH [OF rest] show ?case by simp
qed

lemma indexOf_upper_hex:
  "c \<in> set ''0123456789abcdef'' \<Longrightarrow> indexOf c ''ABCDEFGHIJKLMNOPQRSTUVWXYZ'' = None"
  by (simp, elim disjE) simp_all

lemma toLowerCase_hex:
  "set ds \<subseteq> set (take 16 ALPHABET) \<Longrightarrow> toLowerCase ds = ds"
proof (induction ds)
  case Nil
  show ?case by (simp add: toLowerCase_def)
next
  case (Cons c cs)
  then have "c \<in> set ''0123456789abcdef''" by (simp add: take16)
  then have "indexOf c ''ABCDEFGHIJKLMNOPQRSTUVWXYZ'' = None"
    by (rule indexOf_upper_hex)
  moreover have "toLowerCase cs = cs" using Cons by simp
  ultimately show ?case by (simp add: toLowerCase_def)
qed

lemma parse_decimal_0x: "parse_decimal (CHR ''0'' # CHR ''x'' # ds) = None"
  by (simp add: parse_decimal_def is_digit_def)

lemma dec_len_le: "0 < k \<Longrightarrow> n < 10 ^ k \<Longrightarrow> dec_len n \<le> k"
proof (induction n arbitrary: k rule: dec_len.induct)
  case (1 n)
  show ?case
  proof (cases "n < 10")
    case True
    then show ?thesis using "1.prems"(1) by (simp add: dec_len.simps [of n])
  next
    case False
    obtain j where k: "k = Suc j" using "1.prems"(1) by (cases k) simp_all
    have "j \<noteq> 0"
    proof
      assume "j = 0"
      with k "1.prems"(2) False show False by simp
    qed
    then have j: "0 < j" by simp
    from "1.prems"(2) k have "n < 10 ^ j * 10" by simp
    then have "n div 10 < 10 ^ j" by (rule less_mult_imp_div_less)
    from "1.IH" [OF False j this] have "dec_len (n div 10) \<le> j" .
    with False k show ?thesis by (simp add: dec_len.simps [of n])
  qed
qed

lemma hex_char_classes:
  "c \<in> set ''0123456789abcdef'' \<Longrightarrow> is_word c \<and> \<not> is_space c \<and> c \<noteq> CHR ''.''"
  by (simp add: is_word_def is_digit_def is_lower_def is_upper_def is_space_def, elim disjE)
    simp_all

lemma strip_trailing_id:
  assumes "u \<noteq> []" and "\<not> is_space (last u)"
  shows "rev (dropWhile is_space (rev u)) = u"
proof -
  from assms(1) obtain ys y where u: "u = ys @ [y]" by (cases u rule: rev_cases) simp_all
  with assms(2) show ?thesis by simp
qed

lemma strip_0x:
  assumes "ds \<noteq> []" and "set ds \<subseteq> set (take 16 ALPHABET)"
  shows "strip (CHR ''0'' # CHR ''x'' # ds) = CHR ''0'' # CHR ''x'' # ds"
proof -
  from assms(1) have "last ds \<in> set ds" by simp
  with assms(2) have "last ds \<in> set (take 16 ALPHABET)" by blast
  then have "last ds \<in> set ''0123456789abcdef''" by (simp only: take16)
  then have "\<not> is_space (last ds)" using hex_char_classes by blast
  with assms(1) have "\<not> is_space (last (CHR ''0'' # CHR ''x'' # ds))" by simp
  then have "rev (dropWhile is_space (rev (CHR ''0'' # CHR ''x'' # ds))) =
      CHR ''0'' # CHR ''x'' # ds"
    by (intro strip_trailing_id) simp_all
  moreover have "\<not> is_space CHR ''0''" by (simp add: is_space_def)
  ultimately show ?thesis by (simp add: strip_def)
qed

lemma prefix_rest_hex:
  assumes "ds \<noteq> []" and "set ds \<subseteq> set (take 16 ALPHABET)"
  shows "prefix_rest ds"
proof -
  have w: "is_word c" if "c \<in> set ds" for c
  proof -
    from that assms(2) have "c \<in> set (take 16 ALPHABET)" by blast
    then have "c \<in> set ''0123456789abcdef''" by (simp only: take16)
    then show ?thesis using hex_char_classes by blast
  qed
  from assms(1) have "hd ds \<in> set ds" by simp
  with w have "is_word (hd ds)" by blast
  moreover have "list_all (\<lambda>c. is_word c \<or> c = CHR ''.'') ds"
    using w by (simp add: list_all_iff)
  ultimately show ?thesis using assms(1) by (simp add: prefix_rest_def)
qed

lemma base_digits_hex:
  assumes "digits_value 16 0 ds = Some n"
  shows "base_digits 16 ds = Some (n, 0)"
proof -
  from assms have sub: "set ds \<subseteq> set (take 16 ALPHABET)"
    by (rule digits_value_chars)
  then have low: "toLowerCase ds = ds" by (rule toLowerCase_hex)
  have "c \<noteq> CHR ''.''" if "c \<in> set ds" for c
  proof -
    from that sub have "c \<in> set (take 16 ALPHABET)" by blast
    then have "c \<in> set ''0123456789abcdef''" by (simp only: take16)
    then show ?thesis using hex_char_classes by blast
  qed
  then have tw: "takeWhile (\<lambda>c. c \<noteq> CHR ''.'') ds = ds"
    and dw: "dropWhile (\<lambda>c. c \<noteq> CHR ''.'') ds = []"
    by (simp_all add: takeWhile_eq_all_conv dropWhile_eq_Nil_conv)
  have "split_dot ds = Some (ds, [])"
    by (simp only: split_dot_def Let_def tw dw list.case)
  with assms show ?thesis by (simp add: base_digits_def low)
qed

lemma base_number_whole:
  assumes "n < 10 ^ 78"
  shows "base_number False b n 0 = Finite (rat_of_nat n)"
proof -
  have "dec_len n \<le> 78" using assms by (intro dec_len_le) simp_all
  then have "\<not> MAX_EXP < int (dec_len n) - 1" by (simp add: MAX_EXP_def)
  then show ?thesis by (simp add: base_number_def signed_zero_def Let_def)
qed

lemma BigNumber_of_string_0x:
  assumes "ds \<noteq> []" and "digits_value 16 0 ds = Some n" and "n < 10 ^ 78"
  shows "BigNumber_of_string (''0x'' @ ds) = Finite (rat_of_nat n)"
proof -
  from assms(2) have sub: "set ds \<subseteq> set (take 16 ALPHABET)"
    by (rule digits_value_chars)
  have "base_value False 16 ds = base_number False 16 n 0"
    by (simp add: base_value.simps [of False 16 ds] base_digits_hex [OF assms(2)])
  then have "base_value False 16 ds = Finite (rat_of_nat n)"
    by (simp only: base_number_whole [OF assms(3)])
  then show ?thesis
    by (simp add: BigNumber_of_string_def strip_0x [OF assms(1) sub] split_sign_def
        parse_decimal_0x base_of_prefix_def prefix_rest_hex [OF assms(1) sub])
qed

lemma byte_hex_digits:
  "byte_hex b = [ALPHABET ! (unat b div 16), ALPHABET ! (unat b mod 16)]"
proof (cases "b < 0x10")
  case True
  then have "unat b < 16" by (simp add: word_less_nat_alt)
  with True show ?thesis
    by (simp add: byte_hex_def hex_of_nat.simps [of "unat b"] ALPHABET_def)
next
  case False
  then have ge: "\<not> unat b < 16" by (simp add: word_less_nat_alt)
  have "unat b < 256" using unsigned_less [of b, where ?'a = nat] by simp
  then have "unat b div 16 < 16" by simp
  with False ge show ?thesis
    by (simp add: byte_hex_def hex_of_nat.simps [of "unat b"]
        hex_of_nat.simps [of "unat b div 16"])
qed

lemma digits_value_byte_hex:
  "digits_value 16 acc (byte_hex b @ s) = digits_value 16 (acc * 256 + unat b) s"
proof -
  have "unat b < 256" using unsigned_less [of b, where ?'a = nat] by simp
  then have d: "unat b div 16 < 16" by simp
  have m: "unat b mod 16 < 16" by simp
  have "(acc * 16 + unat b div 16) * 16 + unat b mod 16 = acc * 256 + unat b"
    by (simp add: algebra_simps)
  then show ?thesis
    by (simp add: byte_hex_digits indexOf_hexchar [OF d] indexOf_hexchar [OF m]
        add.commute mult.commute)
qed

lemma digits_value_bytes:
  "digits_value 16 acc (concat (map byte_hex bs)) =
     Some (foldl (\<lambda>a b. a * 256 + unat b) acc bs)"
  by (induction bs arbitrary: acc) (simp_all add: digits_value_byte_hex)

lemma foldl_bytes_bound:
  "foldl (\<lambda>a b. a * 256 + unat (b::byte)) acc bs < (acc + 1) * 256 ^ length bs"
proof (induction bs arbitrary: acc)
  case Nil
  show ?case by simp
next
  case (Cons b bs)
  have "unat b < 256" using unsigned_less [of b, where ?'a = nat] by simp
  then have "acc * 256 + unat b + 1 \<le> (acc + 1) * 256" by simp
  then have "(acc * 256 + unat b + 1) * 256 ^ length bs \<le> (acc + 1) * 256 * 256 ^ length bs"
    by (rule mult_le_mono1)
  with Cons [of "acc * 256 + unat b"]
  have "foldl (\<lambda>a b. a * 256 + unat b) (acc * 256 + unat b) bs <
      (acc + 1) * 256 * 256 ^ length bs"
    by (rule less_le_trans)
  then show ?case by (simp add: algebra_simps)
qed

lemma be_value_bound: "be_value bs < 256 ^ length bs"
  using foldl_bytes_bound [of 0 bs] by (simp add: be_value_def)

lemma concat_byte_hex_nonempty: "bs \<noteq> [] \<Longrightarrow> concat (map byte_hex bs) \<noteq> []"
  by (cases bs) (simp_all add: byte_hex_digits)

lemma new_U256_VString:
  "new_U256 (VString s) = new_U256 (VBigNumber (BigNumber_of_string s))"
  by (simp add: new_U256_def)

lemma BigNumber_of_string_hex_bytes:
  assumes "bs \<noteq> []" and "length bs \<le> 32"
  shows "BigNumber_of_string (''0x'' @ concat (map byte_hex bs)) =
           Finite (rat_of_nat (be_value bs))"
proof -
  have d: "digits_value 16 0 (concat (map byte_hex bs)) = Some (be_value bs)"
    by (simp add: digits_value_bytes be_value_def)
  have "(256::nat) ^ length bs \<le> 256 ^ 32"
    using assms(2) by (intro power_increasing) simp_all
  with be_value_bound [of bs] have "be_value bs < 256 ^ 32" by (rule less_le_trans)
  then have "be_value bs < 10 ^ 78" by simp
  with assms(1) d show ?thesis
    by (intro BigNumber_of_string_0x concat_byte_hex_nonempty)
qed

lemma new_U256_hex_bytes:
  assumes "bs \<noteq> []" and "length bs \<le> 32"
  shows "new_U256 (VString (''0x'' @ concat (map byte_hex bs))) =
           Inr \<lparr>val = Finite (rat_of_nat (be_value bs))\<rparr>"
proof -
  have p: "BigNumber_of_string (''0x'' @ concat (map byte_hex bs)) =
      Finite (rat_of_nat (be_value bs))"
    using assms by (rule BigNumber_of_string_hex_bytes)
  have "(256::nat) ^ length bs \<le> 256 ^ 32"
    using assms(2) by (intro power_increasing) simp_all
  with be_value_bound [of bs] have "be_value bs < 256 ^ 32" by (rule less_le_trans)
  then have "be_value bs < 2 ^ 256" by simp
  with new_U256_nat [of "be_value bs"]
  have "new_U256 (VBigNumber (Finite (rat_of_nat (be_value bs)))) =
      Inr \<lparr>val = Finite (rat_of_nat (be_value bs))\<rparr>" by simp
  then show ?thesis by (simp only: new_U256_VString p)
qed

lemma fromBytes_payload:
  assumes "bs \<noteq> []" and "length bs \<le> 32"
  shows "fromBytes (of_nat (128 + length bs) # bs) =
           Inr \<lparr>val = Finite (rat_of_nat (be_value bs))\<rparr>"
proof -
  have "unat (of_nat (128 + length bs) :: byte) = 128 + length bs"
    using assms(2) by (simp only: unat_of_nat) simp
  then have "uint (of_nat (128 + length bs) :: byte) = 128 + int (length bs)"
    by (simp add: uint_nat)
  with assms new_U256_hex_bytes [OF assms] show ?thesis
    by (simp add: fromBytes_def)
qed

lemma hex_digit_lower:
  "indexOf c (take 16 ALPHABET) = Some d \<Longrightarrow> hex_digit c = Some d"
  by (simp add: hex_digit_def)

lemma from_hex_value:
  "even (length s) \<Longrightarrow> digits_value 16 acc s = Some n \<Longrightarrow>
     foldl (\<lambda>a b. a * 256 + unat b) acc (from_hex s) = n \<and>
     length (from_hex s) = length s div 2"
proof (induction s arbitrary: acc rule: from_hex.induct)
  case (1 a b r)
  from "1.prems"(2) obtain x y where
    x: "indexOf a (take 16 ALPHABET) = Some x" and
    y: "indexOf b (take 16 ALPHABET) = Some y" and
    rest: "digits_value 16 ((acc * 16 + x) * 16 + y) r = Some n"
    by (auto split: option.splits)
  from indexOf_bound [OF x] indexOf_bound [OF y] have xy: "x < 16" "y < 16"
    by (simp_all add: take16)
  then have "16 * x + y < 256" by simp
  then have u: "unat (of_nat (16 * x + y) :: byte) = 16 * x + y"
    by (simp only: unat_of_nat) simp
  have ev: "even (length r)" using "1.prems"(1) by simp
  have acc: "acc * 256 + (16 * x + y) = (acc * 16 + x) * 16 + y" by simp
  have pair: "(Some x, Some y) = (hex_digit a, hex_digit b)"
    by (simp add: hex_digit_lower [OF x] hex_digit_lower [OF y])
  from "1.IH" [OF pair refl refl ev rest]
  have IH: "foldl (\<lambda>a b. a * 256 + unat b) ((acc * 16 + x) * 16 + y) (from_hex r) = n"
    and len: "length (from_hex r) = length r div 2"
    by simp_all
  have fh: "from_hex (a # b # r) = (of_nat (16 * x + y) :: byte) # from_hex r"
    by (simp add: hex_digit_lower [OF x] hex_digit_lower [OF y])
  have "foldl (\<lambda>a b. a * 256 + unat b) acc (from_hex (a # b # r)) =
      foldl (\<lambda>a b. a * 256 + unat b) (acc * 256 + unat (of_nat (16 * x + y) :: byte))
        (from_hex r)"
    by (simp only: fh foldl_Cons)
  also have "\<dots> = n" by (simp only: u acc IH)
  finally have 1: "foldl (\<lambda>a b. a * 256 + unat b) acc (from_hex (a # b # r)) = n" .
  have "length (from_hex (a # b # r)) = Suc (length (from_hex r))"
    by (simp only: fh list.size)
  then have 2: "length (from_hex (a # b # r)) = length (a # b # r) div 2"
    by (simp add: len)
  from 1 2 show ?case by (rule conjI)
qed simp_all

lemma padToEven_alt: "padToEven a = (if even (length a) then a else CHR ''0'' # a)"
  by (simp add: padToEven_def even_iff_mod_2_eq_zero)

lemma padToEven_even: "even (length (padToEven s))"
  by (simp add: padToEven_alt)

lemma padToEven_idem: "padToEven (padToEven s) = padToEven s"
  by (simp add: padToEven_alt)

lemma digits_value_padToEven:
  "digits_value 16 0 (padToEven (hex_of_nat n)) = Some n"
  using digits_value_hex_of_nat [of 0 n]
  by (simp add: padToEven_alt take16)

lemma hex_of_nat_zero_iff: "hex_of_nat n = ''0'' \<longleftrightarrow> n = 0"
proof
  assume "hex_of_nat n = ''0''"
  with digits_value_hex_of_nat [of 0 n] show "n = 0" by (simp add: take16)
next
  assume "n = 0"
  then show "hex_of_nat n = ''0''" by (simp add: hex_of_nat.simps [of 0] ALPHABET_def)
qed

text \<open>The buffer that \<open>RLP.encode\<close> frames for a positive value.\<close>

lemma toBuffer_toEncodeObject:
  assumes "0 < n"
  shows "toBuffer (toEncodeObject \<lparr>val = Finite (rat_of_nat n)\<rparr>) =
           from_hex (padToEven (hex_of_nat n))"
proof -
  have nz: "hex_of_nat n \<noteq> ''0''" using assms by (simp add: hex_of_nat_zero_iff)
  have "toEncodeObject \<lparr>val = Finite (rat_of_nat n)\<rparr> =
      EncString (''0x'' @ padToEven (hex_of_nat n))"
    using nz by (simp add: toEncodeObject_def padToEven_alt even_iff_mod_2_eq_zero)
  then show ?thesis
    by (simp add: toBuffer_def padToEven_idem)
qed

lemma buffer_of_value:
  "foldl (\<lambda>a b. a * 256 + unat b) 0 (from_hex (padToEven (hex_of_nat n))) = n \<and>
   length (from_hex (padToEven (hex_of_nat n))) = length (padToEven (hex_of_nat n)) div 2"
  by (rule from_hex_value [OF padToEven_even digits_value_padToEven])

lemma rlpBytes_zero: "rlpBytes \<lparr>val = Finite 0\<rparr> = [0x80]"
  by (simp add: rlpBytes_def toEncodeObject_def hex_of_nat.simps [of 0] ALPHABET_def
      RLP_encode_def toBuffer_def encodeLength_def)

lemma fromBytes_empty_payload: "fromBytes [0x80] = Inr \<lparr>val = Finite 0\<rparr>"
  by (simp add: fromBytes_def new_U256_def hex_of_nat.simps [of 0])

lemma even_pos_ge2: "even (m::nat) \<Longrightarrow> 0 < m \<Longrightarrow> 2 \<le> m"
  by (elim evenE) simp

lemma buffer_length_bounds:
  assumes "n < 2 ^ 256"
  shows "from_hex (padToEven (hex_of_nat n)) \<noteq> []"
    and "length (from_hex (padToEven (hex_of_nat n))) \<le> 32"
proof -
  let ?h = "hex_of_nat n"
  have "n < 16 ^ 64" using assms by simp
  then have le: "length ?h \<le> 64" by (simp add: hex_length_le_iff)
  have ne: "length ?h \<noteq> 0" using hex_of_nat_nonempty by simp
  have len: "length (from_hex (padToEven ?h)) = length (padToEven ?h) div 2"
    using buffer_of_value by simp
  have "0 < length (padToEven ?h)"
    using hex_of_nat_nonempty [of n] by (simp add: padToEven_alt)
  with padToEven_even [of ?h] have "2 \<le> length (padToEven ?h)"
    by (rule even_pos_ge2)
  with len have "length (from_hex (padToEven ?h)) \<noteq> 0" by simp
  then show "from_hex (padToEven ?h) \<noteq> []" by simp
  have "length (padToEven ?h) \<le> 64"
  proof (cases "even (length ?h)")
    case True
    with le show ?thesis by (simp add: padToEven_alt)
  next
    case False
    then have "length ?h \<noteq> 64" by auto
    with le False show ?thesis by (simp add: padToEven_alt)
  qed
  with len show "length (from_hex (padToEven ?h)) \<le> 32" by simp
qed

lemma small_buffer:
  assumes "0 < n" and "n < 256"
  shows "\<exists>b. from_hex (padToEven (hex_of_nat n)) = [b] \<and> unat b = n"
proof -
  let ?h = "hex_of_nat n"
  let ?buf = "from_hex (padToEven ?h)"
  have "n < 16 ^ 2" using assms by simp
  then have le: "length ?h \<le> 2" by (simp add: hex_length_le_iff)
  have ne: "length ?h \<noteq> 0" using hex_of_nat_nonempty by simp
  have "length (padToEven ?h) = 2"
  proof (cases "length ?h = 1")
    case True
    then show ?thesis by (simp add: padToEven_alt)
  next
    case False
    moreover have "0 < length ?h" using hex_of_nat_nonempty [of n] by simp
    ultimately have "length ?h = 2" using le by linarith
    then show ?thesis by (simp add: padToEven_alt)
  qed
  with buffer_of_value [of n] have "length ?buf = 1" by simp
  then obtain b where b: "?buf = [b]" by (cases ?buf) simp_all
  with buffer_of_value [of n] have "unat b = n" by simp
  with b show ?thesis by simp
qed

lemma rlpBytes_small:
  assumes "0 < n" and "n < 128"
  shows "rlpBytes \<lparr>val = Finite (rat_of_nat n)\<rparr> = [of_nat n]"
proof -
  from assms small_buffer [of n] obtain b where
    b: "from_hex (padToEven (hex_of_nat n)) = [b]" and u: "unat b = n" by auto
  from u have "(of_nat (unat b) :: byte) = of_nat n" by simp
  then have bn: "b = of_nat n" by simp
  from u assms(2) have "b < 128" by (simp add: word_less_nat_alt)
  with b show ?thesis
    by (simp add: rlpBytes_def RLP_encode_def toBuffer_toEncodeObject [OF assms(1)] bn)
qed

lemma fromBytes_single_small:
  assumes "(b::byte) < 128"
  shows "fromBytes [b] = Inl InvalidRLP"
proof -
  from assms have "uint b < 128" by (simp add: word_less_alt)
  then show ?thesis by (simp add: fromBytes_def)
qed

lemma rlpBytes_large:
  assumes "128 \<le> n" and "n < 2 ^ 256"
  shows "rlpBytes \<lparr>val = Finite (rat_of_nat n)\<rparr> =
           of_nat (128 + length (from_hex (padToEven (hex_of_nat n)))) #
             from_hex (padToEven (hex_of_nat n))"
proof -
  let ?buf = "from_hex (padToEven (hex_of_nat n))"
  have pos: "0 < n" using assms(1) by simp
  have "\<not> (length ?buf = 1 \<and> hd ?buf < 128)"
  proof
    assume a: "length ?buf = 1 \<and> hd ?buf < 128"
    then obtain b where b: "?buf = [b]" by (cases ?buf) simp_all
    with buffer_of_value [of n] have "unat b = n" by simp
    moreover from a b have "unat b < 128" by (simp add: word_less_nat_alt)
    ultimately show False using assms(1) by simp
  qed
  moreover have "length ?buf < 56"
    using buffer_length_bounds(2) [OF assms(2)] by simp
  ultimately show ?thesis
    by (simp add: rlpBytes_def RLP_encode_def toBuffer_toEncodeObject [OF pos]
        encodeLength_def Let_def add.commute)
qed

lemma new_U256_BigNumber_new: "new_U256 v = new_U256 (VBigNumber (BigNumber_new v))"
  by (simp add: new_U256_def)

lemma le_MAX_VALUE_nat:
  "isLessThanOrEqualTo (Finite (rat_of_nat n)) MAX_VALUE \<longleftrightarrow> n < 2 ^ 256"
proof -
  have "rat_of_nat n \<le> 2 ^ 256 - 1 \<longleftrightarrow> rat_of_nat n \<le> rat_of_nat (2 ^ 256 - 1)"
    by simp
  also have "\<dots> \<longleftrightarrow> n \<le> 2 ^ 256 - 1" by (simp only: of_nat_le_iff)
  also have "\<dots> \<longleftrightarrow> n < 2 ^ 256" by simp arith
  finally show ?thesis by (simp add: MAX_VALUE_eq)
qed

lemma new_U256_by_range:
  "new_U256 (VBigNumber x) =
     (if \<not> isInteger x \<or> isNegative x then Inl NotPositiveInteger
      else if \<not> isLessThanOrEqualTo x MAX_VALUE then Inl OutOfRange
      else Inr \<lparr>val = x\<rparr>)"
proof (cases "isInteger x \<and> \<not> isNegative x")
  case True
  then obtain n where x: "x = Finite (rat_of_nat n)"
    using nonneg_integer_iff by blast
  show ?thesis
    using True by (simp only: x new_U256_nat le_MAX_VALUE_nat) simp
next
  case False
  then show ?thesis by (auto simp: new_U256_def)
qed

lemma new_U256_Inr_iff:
  "new_U256 v = Inr u \<longleftrightarrow>
     (\<exists>n. n < 2 ^ 256 \<and> BigNumber_new v = Finite (rat_of_nat n) \<and>
          u = \<lparr>val = Finite (rat_of_nat n)\<rparr>)"
proof
  assume a: "new_U256 v = Inr u"
  then have "isInteger (BigNumber_new v) \<and> \<not> isNegative (BigNumber_new v)"
    by (auto simp: new_U256_def Let_def split: if_splits)
  then obtain n where x: "BigNumber_new v = Finite (rat_of_nat n)"
    using nonneg_integer_iff by blast
  from a have "new_U256 (VBigNumber (Finite (rat_of_nat n))) = Inr u"
    by (simp only: new_U256_BigNumber_new [of v] x)
  then have "n < 2 ^ 256 \<and> u = \<lparr>val = Finite (rat_of_nat n)\<rparr>"
    by (auto simp only: new_U256_nat split: if_splits)
  with x show "\<exists>n. n < 2 ^ 256 \<and> BigNumber_new v = Finite (rat_of_nat n) \<and>
      u = \<lparr>val = Finite (rat_of_nat n)\<rparr>" by blast
next
  assume "\<exists>n. n < 2 ^ 256 \<and> BigNumber_new v = Finite (rat_of_nat n) \<and>
      u = \<lparr>val = Finite (rat_of_nat n)\<rparr>"
  then obtain n where n: "n < 2 ^ 256" "BigNumber_new v = Finite (rat_of_nat n)"
    "u = \<lparr>val = Finite (rat_of_nat n)\<rparr>" by blast
  have "new_U256 v = new_U256 (VBigNumber (Finite (rat_of_nat n)))"
    by (simp only: new_U256_BigNumber_new [of v] n(2))
  with n show "new_U256 v = Inr u" by (simp only: new_U256_nat) simp
qed

lemma Finite_range_nat:
  "r \<in> \<int> \<and> 0 \<le> r \<and> r \<le> 2 ^ 256 - 1 \<longleftrightarrow> (\<exists>n. n < 2 ^ 256 \<and> r = rat_of_nat n)"
proof
  assume a: "r \<in> \<int> \<and> 0 \<le> r \<and> r \<le> 2 ^ 256 - 1"
  then have "isInteger (Finite r) \<and> \<not> isNegative (Finite r)"
    by (simp add: isInteger_Finite_Ints)
  then obtain n where n: "r = rat_of_nat n" using nonneg_integer_iff by blast
  with a have "isLessThanOrEqualTo (Finite (rat_of_nat n)) MAX_VALUE"
    by (simp add: MAX_VALUE_eq)
  then have "n < 2 ^ 256" by (simp only: le_MAX_VALUE_nat)
  with n show "\<exists>n. n < 2 ^ 256 \<and> r = rat_of_nat n" by blast
next
  assume "\<exists>n. n < 2 ^ 256 \<and> r = rat_of_nat n"
  then obtain n where n: "n < 2 ^ 256" "r = rat_of_nat n" by blast
  from n(1) have "isLessThanOrEqualTo (Finite (rat_of_nat n)) MAX_VALUE"
    by (simp only: le_MAX_VALUE_nat)
  then have "rat_of_nat n \<le> 2 ^ 256 - 1" by (simp add: MAX_VALUE_eq)
  with n(2) show "r \<in> \<int> \<and> 0 \<le> r \<and> r \<le> 2 ^ 256 - 1" by simp
qed

lemma new_U256_invariant: "new_U256 v = Inr u \<Longrightarrow> U256_invariant u"
proof -
  assume "new_U256 v = Inr u"
  then obtain n where n: "n < 2 ^ 256" and u: "u = \<lparr>val = Finite (rat_of_nat n)\<rparr>"
    using new_U256_Inr_iff by blast
  from n have "rat_of_nat n \<in> \<int> \<and> 0 \<le> rat_of_nat n \<and> rat_of_nat n \<le> 2 ^ 256 - 1"
    using Finite_range_nat [of "rat_of_nat n"] by blast
  then show ?thesis by (simp add: U256_invariant_def u)
qed

lemma increase_nat:
  "increase \<lparr>val = Finite (rat_of_nat n)\<rparr> =
     (if n + 1 < 2 ^ 256 then Inr \<lparr>val = Finite (rat_of_nat (n + 1))\<rparr> else Inl OutOfRange)"
proof -
  have "bn_plus (Finite (rat_of_nat n)) (BigNumber_of_number (NumFinite 1)) =
      Finite (rat_of_nat (n + 1))"
    by simp
  then have "increase \<lparr>val = Finite (rat_of_nat n)\<rparr> =
      new_U256 (VBigNumber (Finite (rat_of_nat (n + 1))))"
    by (simp add: increase_def add.commute)
  then show ?thesis by (simp only: new_U256_nat)
qed

section \<open>The claims\<close>

text \<open>
  Claim C1 (round trip): for every \<open>v\<close> with \<open>0 \<le> v \<le> 2^256 - 1\<close>, decoding the
  buffer that \<open>rlpBytes\<close> produces for a \<open>U256\<close> holding \<open>v\<close> yields a \<open>U256\<close>
  holding \<open>v\<close>. The code does so for \<open>v = 0\<close> and for \<open>v \<ge> 128\<close>. For
  \<open>1 \<le> v \<le> 127\<close> the codec emits the single byte \<open>v\<close> with no length header, and
  \<open>fromBytes\<close>, which always reads the first byte as a header, computes a negative
  length and throws.
\<close>

theorem rlp_roundtrip:
  assumes "n < 2 ^ 256"
  shows "fromBytes (rlpBytes \<lparr>val = Finite (rat_of_nat n)\<rparr>) =
           (if 1 \<le> n \<and> n < 128 then Inl InvalidRLP
            else Inr \<lparr>val = Finite (rat_of_nat n)\<rparr>)"
proof -
  consider "n = 0" | "1 \<le> n" "n < 128" | "128 \<le> n" by linarith
  then show ?thesis
  proof cases
    case 1
    then show ?thesis by (simp add: rlpBytes_zero fromBytes_empty_payload)
  next
    case 2
    then have "0 < n" by simp
    from rlpBytes_small [OF this 2(2)]
    have r: "rlpBytes \<lparr>val = Finite (rat_of_nat n)\<rparr> = [of_nat n]" .
    have "(of_nat n :: byte) < 128"
      using 2(2) by (simp add: word_less_nat_alt unat_of_nat)
    from fromBytes_single_small [OF this] r 2 show ?thesis by simp
  next
    case 3
    let ?buf = "from_hex (padToEven (hex_of_nat n))"
    from buffer_of_value [of n] have bv: "be_value ?buf = n" by (simp add: be_value_def)
    from fromBytes_payload [OF buffer_length_bounds [OF assms]] bv
      rlpBytes_large [OF 3 assms] 3
    show ?thesis by simp
  qed
qed

theorem rlp_roundtrip_witness:
  "rlpBytes \<lparr>val = Finite 1\<rparr> = [0x01] \<and>
   fromBytes (rlpBytes \<lparr>val = Finite 1\<rparr>) = Inl InvalidRLP \<and>
   fromBytes (rlpBytes \<lparr>val = Finite 128\<rparr>) = Inr \<lparr>val = Finite 128\<rparr>"
  using rlp_roundtrip [of 1] rlp_roundtrip [of 128] rlpBytes_small [of 1] by simp

text \<open>
  Claim C2 (zero special case): encoding \<open>0\<close> yields the codec's encoding of the
  number zero and not the generic empty-string encoding \<open>0x80\<close>. In the code the
  two coincide: \<open>toEncodeObject\<close> hands the number \<open>0\<close> to the codec, which frames
  an empty buffer, so the encoding of zero is the byte \<open>0x80\<close>, the encoding of the
  empty string.
\<close>

theorem encode_zero_is_empty_string_encoding:
  "rlpBytes \<lparr>val = Finite 0\<rparr> = RLP_encode (EncString []) \<and>
   RLP_encode (EncString []) = [0x80]"
  by (simp add: rlpBytes_zero RLP_encode_def toBuffer_def encodeLength_def)

text \<open>
  Claim C2 as amended: encoding \<open>0\<close> yields the single byte \<open>0x80\<close>, the codec's
  encoding of the number zero, and not the byte \<open>0x00\<close> that the codec gives for the
  hexadecimal string \<open>0x0\<close> (the case the source's workaround avoids); \<open>fromBytes\<close>
  of that one byte yields a \<open>U256\<close> holding \<open>0\<close>.
\<close>

theorem encode_zero:
  "toEncodeObject \<lparr>val = Finite 0\<rparr> = EncNumber 0 \<and>
   rlpBytes \<lparr>val = Finite 0\<rparr> = [0x80] \<and>
   RLP_encode (EncString ''0x0'') = [0x00] \<and>
   fromBytes (rlpBytes \<lparr>val = Finite 0\<rparr>) = Inr \<lparr>val = Finite 0\<rparr>"
  by (simp add: rlpBytes_zero fromBytes_empty_payload toEncodeObject_def
      hex_of_nat.simps [of 0] ALPHABET_def RLP_encode_def toBuffer_def padToEven_def
      hex_digit_def)

text \<open>
  Claim C3 (\<open>check\<close> is a complete validity predicate): \<open>check\<close> returns true exactly
  when the validating constructor would succeed. For a native number \<open>check\<close> tests
  only \<open>Number.isInteger(param) && param >= 0\<close>, without the comparison against
  \<open>MAX_VALUE\<close> that the string and \<open>BigNumber\<close> branches make: it accepts \<open>1e78\<close>,
  which the constructor rejects as out of range (and \<open>-0\<close>, which the constructor
  rejects as negative).
\<close>

theorem check_accepts_number_out_of_range:
  "check (PNumber (NumFinite (10 ^ 78))) \<and>
   ensure (PNumber (NumFinite (10 ^ 78))) = Inl OutOfRange \<and>
   check (PNumber NumNegZero) \<and>
   ensure (PNumber NumNegZero) = Inl NotPositiveInteger"
  by (simp add: new_U256_def hex_of_nat.simps ALPHABET_def)

text \<open>
  On the other three shapes \<open>check\<close> does agree with the constructor.
\<close>

lemma check_agrees_elsewhere:
  "(check (PString s) \<longleftrightarrow> (\<exists>u. ensure (PString s) = Inr u)) \<and>
   (check (PBigNumber b) \<longleftrightarrow> (\<exists>u. ensure (PBigNumber b) = Inr u)) \<and>
   (check (PU256 w) \<longleftrightarrow> (\<exists>u. ensure (PU256 w) = Inr u))"
proof (intro conjI)
  show "check (PString s) \<longleftrightarrow> (\<exists>u. ensure (PString s) = Inr u)"
    by (auto simp: new_U256_VString new_U256_by_range Let_def)
  show "check (PBigNumber b) \<longleftrightarrow> (\<exists>u. ensure (PBigNumber b) = Inr u)"
    by (auto simp: new_U256_by_range)
  show "check (PU256 w) \<longleftrightarrow> (\<exists>u. ensure (PU256 w) = Inr u)"
    by simp
qed

text \<open>
  Claim C4 (leading zeros are rejected): \<open>fromBytes\<close> rejects every buffer whose
  payload, of declared length at least 1, begins with a \<open>0x00\<close> byte. The source has
  no such check: \<open>[0x81, 0x00]\<close> decodes to \<open>0\<close> and \<open>[0x82, 0x00, 0x01]\<close> to \<open>1\<close>.
\<close>

theorem leading_zero_accepted:
  "fromBytes [0x81, 0x00] = Inr \<lparr>val = Finite 0\<rparr> \<and>
   fromBytes [0x82, 0x00, 0x01] = Inr \<lparr>val = Finite 1\<rparr>"
  using fromBytes_payload [of "[0x00]"] fromBytes_payload [of "[0x00, 0x01]"]
  by (simp add: be_value_def)

text \<open>
  Claim C4 as amended: \<open>fromBytes\<close> makes no minimality check. For every buffer whose
  declared payload length is between 1 and 32, equals the number of payload bytes, and
  whose payload begins with a \<open>0x00\<close> byte, \<open>fromBytes\<close> returns a \<open>U256\<close> holding
  the big-endian value of the payload, which is the value of the bytes after the
  leading zero.
\<close>

theorem fromBytes_leading_zero:
  assumes "length rest \<le> 31"
  shows "fromBytes (of_nat (128 + length (0 # rest)) # 0 # rest) =
           Inr \<lparr>val = Finite (rat_of_nat (be_value rest))\<rparr>"
proof -
  have "be_value (0 # rest) = be_value rest" by (simp add: be_value_def)
  moreover have "length (0 # rest) \<le> 32" using assms by simp
  ultimately show ?thesis
    using fromBytes_payload [of "0 # rest"] by (simp del: of_nat_add)
qed

theorem fromBytes_leading_zero_witness:
  "fromBytes [0x83, 0x00, 0x01, 0x02] = Inr \<lparr>val = Finite 258\<rparr>"
  using fromBytes_leading_zero [of "[0x01, 0x02]"] by (simp add: be_value_def)

text \<open>
  Claim C5 (constructor validation): the constructor raises exactly when the parsed
  input is negative, not a whole number, or above \<open>2^256 - 1\<close>, and on success holds
  the parsed input; \<open>-1\<close>, a fraction and \<open>2^256\<close> fail, \<open>2^256 - 1\<close> succeeds.
  The source throws a plain \<open>Error\<close> at both sites, the kind the specification calls
  \<open>RangeError\<close>. "Negative" is the library's \<open>isNegative\<close>, the sign of the value: it
  holds of every \<open>r < 0\<close> and of negative zero. The source bounds the value by the
  length of its hexadecimal rendering; the theorem states the bound as a comparison
  with \<open>MAX_VALUE\<close>, and for a finite value in plain arithmetic.
\<close>

theorem constructor_validation:
  "new_U256 v =
     (if \<not> isInteger (BigNumber_new v) \<or> isNegative (BigNumber_new v)
      then Inl NotPositiveInteger
      else if \<not> isLessThanOrEqualTo (BigNumber_new v) MAX_VALUE then Inl OutOfRange
      else Inr \<lparr>val = BigNumber_new v\<rparr>) \<and>
   ((\<exists>e. new_U256 (VBigNumber (Finite r)) = Inl e) \<longleftrightarrow>
      r < 0 \<or> r \<notin> \<int> \<or> 2 ^ 256 - 1 < r) \<and>
   ((\<exists>u. new_U256 (VBigNumber (Finite r)) = Inr u) \<longleftrightarrow>
      new_U256 (VBigNumber (Finite r)) = Inr \<lparr>val = Finite r\<rparr>)"
proof (intro conjI)
  show "new_U256 v =
     (if \<not> isInteger (BigNumber_new v) \<or> isNegative (BigNumber_new v)
      then Inl NotPositiveInteger
      else if \<not> isLessThanOrEqualTo (BigNumber_new v) MAX_VALUE then Inl OutOfRange
      else Inr \<lparr>val = BigNumber_new v\<rparr>)"
    by (simp only: new_U256_BigNumber_new [of v] new_U256_by_range)
  show "(\<exists>e. new_U256 (VBigNumber (Finite r)) = Inl e) \<longleftrightarrow>
      r < 0 \<or> r \<notin> \<int> \<or> 2 ^ 256 - 1 < r"
    by (auto simp: new_U256_by_range isInteger_Finite_Ints MAX_VALUE_eq
        simp del: isInteger.simps)
  show "(\<exists>u. new_U256 (VBigNumber (Finite r)) = Inr u) \<longleftrightarrow>
      new_U256 (VBigNumber (Finite r)) = Inr \<lparr>val = Finite r\<rparr>"
    by (auto simp: new_U256_by_range)
qed

theorem constructor_validation_witness:
  "new_U256 (VNumber (NumFinite (- 1))) = Inl NotPositiveInteger \<and>
   new_U256 (VString ''1.5'') = Inl NotPositiveInteger \<and>
   new_U256 (VBigNumber (Finite (2 ^ 256))) = Inl OutOfRange \<and>
   new_U256 (VBigNumber (Finite (2 ^ 256 - 1))) = Inr \<lparr>val = Finite (2 ^ 256 - 1)\<rparr> \<and>
   new_U256 (VString ''0x10'') = Inr \<lparr>val = Finite 16\<rparr>"
  using constructor_validation [of "VNumber (NumFinite (- 1))" 0]
    constructor_validation [of "VString ''1.5''" 0]
    constructor_validation [of "VBigNumber (Finite (2 ^ 256))" 0]
    constructor_validation [of "VBigNumber (Finite (2 ^ 256 - 1))" 0]
    constructor_validation [of "VString ''0x10''" 0]
  by (simp add: MAX_VALUE_eq string_eval isInteger_Finite_Ints del: isInteger.simps)

text \<open>
  Claim C6 (length checks of \<open>fromBytes\<close>): a declared length (first byte minus
  \<open>0x80\<close>) above 32 is an error, a payload whose size differs from the declared length
  is an error, and a value is returned only when both checks pass. The source throws a
  plain \<open>Error\<close> at both sites, the kind the specification calls \<open>DecodeError\<close>. An
  empty buffer has no first byte and fails the second check.
\<close>

theorem fromBytes_length_checks:
  "(32 < uint first - 0x80 \<longrightarrow> fromBytes (first # bytes) = Inl BufferTooLong) \<and>
   (uint first - 0x80 \<le> 32 \<and> int (length bytes) \<noteq> uint first - 0x80 \<longrightarrow>
      fromBytes (first # bytes) = Inl InvalidRLP) \<and>
   (int (length bytes) \<noteq> uint first - 0x80 \<longrightarrow>
      (\<exists>e. fromBytes (first # bytes) = Inl e)) \<and>
   fromBytes [] = Inl InvalidRLP \<and>
   (fromBytes buffer = Inr u \<longrightarrow>
      (\<exists>b bs. buffer = b # bs \<and> uint b - 0x80 \<le> 32 \<and>
         int (length bs) = uint b - 0x80))"
proof (intro conjI impI)
  show "fromBytes (first # bytes) = Inl BufferTooLong" if "32 < uint first - 0x80"
    using that by (simp add: fromBytes_def)
  show "fromBytes (first # bytes) = Inl InvalidRLP"
    if "uint first - 0x80 \<le> 32 \<and> int (length bytes) \<noteq> uint first - 0x80"
    using that by (simp add: fromBytes_def)
  show "\<exists>e. fromBytes (first # bytes) = Inl e"
    if "int (length bytes) \<noteq> uint first - 0x80"
    using that by (simp add: fromBytes_def Let_def)
  show "fromBytes [] = Inl InvalidRLP"
    by (simp add: fromBytes_def)
  show "\<exists>b bs. buffer = b # bs \<and> uint b - 0x80 \<le> 32 \<and> int (length bs) = uint b - 0x80"
    if "fromBytes buffer = Inr u"
  proof (cases buffer)
    case Nil
    with that show ?thesis by (simp add: fromBytes_def)
  next
    case (Cons b bs)
    with that have "uint b - 0x80 \<le> 32 \<and> int (length bs) = uint b - 0x80"
      by (simp add: fromBytes_def Let_def split: if_splits)
    with Cons show ?thesis by blast
  qed
qed

theorem fromBytes_length_checks_witness:
  "fromBytes [0xA1] = Inl BufferTooLong \<and>
   fromBytes [0x82, 0x01] = Inl InvalidRLP \<and>
   fromBytes [0x81, 0x01, 0x02] = Inl InvalidRLP \<and>
   fromBytes [0x81, 0x10] = Inr \<lparr>val = Finite 16\<rparr> \<and>
   uint (0x81 :: byte) - 0x80 \<le> 32 \<and> int (length [0x10 :: byte]) = uint (0x81 :: byte) - 0x80"
  using fromBytes_length_checks [of "0xA1" "[]" "[0x81, 0x10]" "\<lparr>val = Finite 16\<rparr>"]
    fromBytes_length_checks [of "0x82" "[0x01]" "[0x81, 0x10]" "\<lparr>val = Finite 16\<rparr>"]
    fromBytes_length_checks [of "0x81" "[0x01, 0x02]" "[0x81, 0x10]" "\<lparr>val = Finite 16\<rparr>"]
    fromBytes_payload [of "[0x10]"]
  by (simp add: be_value_def)

text \<open>
  Claim C7 (\<open>check\<close> never throws): on every accepted shape \<open>check\<close> returns a
  boolean rather than raising, and that boolean is false for invalid inputs, such as
  the malformed strings \<open>abc\<close>, \<open>-5\<close> and \<open>1.5\<close>. \<open>check\<close> does return
  normally on every input: neither it nor \<open>checkString\<close> has a \<open>throw\<close>, and the
  library calls they make do not raise. On the three strings it returns false, as it
  does on every string and \<open>BigNumber\<close> that the constructor rejects. On a native
  number it does not: \<open>1e100\<close> is invalid, the constructor throws on it, and
  \<open>check\<close> returns true, because its number branch lacks the comparison with
  \<open>MAX_VALUE\<close> of its sibling branches. This is the defect of claim C3.
\<close>

theorem check_true_on_invalid_number:
  "check (PNumber (NumFinite (10 ^ 100))) = True \<and>
   ensure (PNumber (NumFinite (10 ^ 100))) = Inl OutOfRange \<and>
   check (PString ''abc'') = False \<and>
   check (PString ''-5'') = False \<and>
   check (PString ''1.5'') = False"
proof (intro conjI)
  show "check (PNumber (NumFinite (10 ^ 100))) = True"
    by simp
  show "ensure (PNumber (NumFinite (10 ^ 100))) = Inl OutOfRange"
    by (simp add: new_U256_def hex_of_nat.simps ALPHABET_def)
  show "check (PString ''abc'') = False"
    by (simp add: string_eval)
  show "check (PString ''-5'') = False"
    by (simp add: string_eval)
  show "check (PString ''1.5'') = False"
    by (simp add: string_eval isInteger_Finite_Ints del: isInteger.simps)
qed

text \<open>
  Claim C8 (decoding the payload): the buffer \<open>[0x80]\<close> decodes to \<open>0\<close>, "even though
  this core's own encoder never emits that framing for zero"; for a declared length of
  at least 1 the payload bytes are written as two hexadecimal digits each and read in
  base 16. The decoding is as claimed, but \<open>[0x80]\<close> is exactly what the encoder
  emits for zero.
\<close>

theorem encoder_emits_empty_payload:
  "rlpBytes \<lparr>val = Finite 0\<rparr> = [0x80] \<and>
   fromBytes [0x80] = Inr \<lparr>val = Finite 0\<rparr>"
  by (simp add: rlpBytes_zero fromBytes_empty_payload)

text \<open>
  Claim C8 as amended: the buffer \<open>[0x80]\<close> decodes to a \<open>U256\<close> holding \<open>0\<close>, and
  it is the framing this core's encoder emits for zero; for a declared length \<open>n\<close>
  with \<open>1 \<le> n \<le> 32\<close> followed by exactly \<open>n\<close> payload bytes, the payload bytes are
  written as two lowercase hexadecimal digits each behind \<open>0x\<close> and read in base 16,
  which gives the big-endian value of the payload.
\<close>

theorem fromBytes_decodes:
  "fromBytes [0x80] = Inr \<lparr>val = Finite 0\<rparr> \<and>
   fromBytes [0x80] = fromBytes (rlpBytes \<lparr>val = Finite 0\<rparr>) \<and>
   byte_hex b = [ALPHABET ! (unat b div 16), ALPHABET ! (unat b mod 16)] \<and>
   (bs \<noteq> [] \<and> length bs \<le> 32 \<longrightarrow>
      fromBytes (of_nat (128 + length bs) # bs) =
        new_U256 (VString (''0x'' @ concat (map byte_hex bs))) \<and>
      BigNumber_of_string (''0x'' @ concat (map byte_hex bs)) =
        Finite (rat_of_nat (be_value bs)) \<and>
      fromBytes (of_nat (128 + length bs) # bs) =
        Inr \<lparr>val = Finite (rat_of_nat (be_value bs))\<rparr>)"
proof (intro conjI impI)
  show "fromBytes [0x80] = Inr \<lparr>val = Finite 0\<rparr>"
    by (rule fromBytes_empty_payload)
  show "fromBytes [0x80] = fromBytes (rlpBytes \<lparr>val = Finite 0\<rparr>)"
    by (simp only: rlpBytes_zero)
  show "byte_hex b = [ALPHABET ! (unat b div 16), ALPHABET ! (unat b mod 16)]"
    by (rule byte_hex_digits)
next
  assume a: "bs \<noteq> [] \<and> length bs \<le> 32"
  then have ne: "bs \<noteq> []" and le: "length bs \<le> 32" by simp_all
  show r: "fromBytes (of_nat (128 + length bs) # bs) =
      Inr \<lparr>val = Finite (rat_of_nat (be_value bs))\<rparr>"
    using ne le by (rule fromBytes_payload)
  show "fromBytes (of_nat (128 + length bs) # bs) =
      new_U256 (VString (''0x'' @ concat (map byte_hex bs)))"
    by (simp only: r new_U256_hex_bytes [OF ne le])
  show "BigNumber_of_string (''0x'' @ concat (map byte_hex bs)) =
      Finite (rat_of_nat (be_value bs))"
    using ne le by (rule BigNumber_of_string_hex_bytes)
qed

theorem fromBytes_decodes_witness:
  "fromBytes [0x81, 0x10] = Inr \<lparr>val = Finite 16\<rparr> \<and>
   fromBytes [0x82, 0x01, 0x0a] = Inr \<lparr>val = Finite 266\<rparr> \<and>
   byte_hex 0x0a = ''0a'' \<and>
   BigNumber_of_string ''0x010a'' = Finite 266"
  using fromBytes_decodes [of "0x0a" "[0x10]"] fromBytes_decodes [of "0x0a" "[0x01, 0x0a]"]
  by (simp add: be_value_def byte_hex_digits new_U256_def string_eval hex_of_nat.simps)

text \<open>
  Claim C9 (range invariant): every instance that the constructor, \<open>fromBytes\<close>,
  \<open>ensure\<close> or \<open>increase\<close> returns holds a whole number between \<open>0\<close> and
  \<open>2^256 - 1\<close>. \<open>ensure\<close> hands an instance it is given back unchanged, so there the
  invariant of the result is that of the argument.
\<close>

theorem range_invariant:
  "(new_U256 v = Inr u \<longrightarrow> U256_invariant u) \<and>
   (fromBytes buffer = Inr u \<longrightarrow> U256_invariant u) \<and>
   (increase this = Inr u \<longrightarrow> U256_invariant u) \<and>
   (ensure p = Inr u \<and> (\<forall>w. p = PU256 w \<longrightarrow> U256_invariant w) \<longrightarrow> U256_invariant u)"
proof (intro conjI impI)
  show "U256_invariant u" if "new_U256 v = Inr u"
    using that by (rule new_U256_invariant)
  show "U256_invariant u" if "fromBytes buffer = Inr u"
  proof (cases buffer)
    case Nil
    with that show ?thesis by (simp add: fromBytes_def)
  next
    case (Cons first bytes)
    with that have "new_U256 (VNumber (NumFinite 0)) = Inr u \<or>
        new_U256 (VString (''0x'' @ concat (map byte_hex bytes))) = Inr u"
      by (simp add: fromBytes_def Let_def split: if_splits)
    then show ?thesis using new_U256_invariant by blast
  qed
  show "U256_invariant u" if "increase this = Inr u"
    using that unfolding increase_def by (rule new_U256_invariant)
  show "U256_invariant u"
    if "ensure p = Inr u \<and> (\<forall>w. p = PU256 w \<longrightarrow> U256_invariant w)"
    using that by (cases p) (auto dest: new_U256_invariant)
qed

theorem range_invariant_witness:
  "U256_invariant \<lparr>val = Finite 16\<rparr> \<and>
   U256_invariant \<lparr>val = Finite 258\<rparr> \<and>
   U256_invariant \<lparr>val = Finite 17\<rparr> \<and>
   U256_invariant \<lparr>val = Finite 5\<rparr> \<and>
   new_U256 (VString ''0x10'') = Inr \<lparr>val = Finite 16\<rparr> \<and>
   fromBytes [0x82, 0x01, 0x02] = Inr \<lparr>val = Finite 258\<rparr> \<and>
   increase \<lparr>val = Finite 16\<rparr> = Inr \<lparr>val = Finite 17\<rparr> \<and>
   ensure (PNumber (NumFinite 5)) = Inr \<lparr>val = Finite 5\<rparr> \<and>
   ensure (PU256 \<lparr>val = Finite 16\<rparr>) = Inr \<lparr>val = Finite 16\<rparr>"
proof -
  have c: "new_U256 (VString ''0x10'') = Inr \<lparr>val = Finite 16\<rparr>"
    by (simp add: new_U256_def string_eval hex_of_nat.simps)
  have f: "fromBytes [0x82, 0x01, 0x02] = Inr \<lparr>val = Finite 258\<rparr>"
    using fromBytes_payload [of "[0x01, 0x02]"] by (simp add: be_value_def)
  have i: "increase \<lparr>val = Finite 16\<rparr> = Inr \<lparr>val = Finite 17\<rparr>"
    using increase_nat [of 16] by simp
  have n: "ensure (PNumber (NumFinite 5)) = Inr \<lparr>val = Finite 5\<rparr>"
    by (simp add: new_U256_def hex_of_nat.simps)
  have e: "ensure (PU256 \<lparr>val = Finite 16\<rparr>) = Inr \<lparr>val = Finite 16\<rparr>"
    by simp
  from range_invariant [of "VString ''0x10''" "\<lparr>val = Finite 16\<rparr>" "[]"
      "\<lparr>val = Finite 0\<rparr>" "PString []"] c
  have 1: "U256_invariant \<lparr>val = Finite 16\<rparr>" by blast
  from range_invariant [of "VString []" "\<lparr>val = Finite 258\<rparr>" "[0x82, 0x01, 0x02]"
      "\<lparr>val = Finite 0\<rparr>" "PString []"] f
  have 2: "U256_invariant \<lparr>val = Finite 258\<rparr>" by blast
  from range_invariant [of "VString []" "\<lparr>val = Finite 17\<rparr>" "[]"
      "\<lparr>val = Finite 16\<rparr>" "PString []"] i
  have 3: "U256_invariant \<lparr>val = Finite 17\<rparr>" by blast
  from range_invariant [of "VString []" "\<lparr>val = Finite 5\<rparr>" "[]"
      "\<lparr>val = Finite 0\<rparr>" "PNumber (NumFinite 5)"] n
  have 4: "U256_invariant \<lparr>val = Finite 5\<rparr>" by blast
  from 1 2 3 4 c f i n e show ?thesis by blast
qed

text \<open>
  Claim C10 (\<open>increase\<close> at the maximum): on an instance holding \<open>2^256 - 1\<close>,
  \<open>increase\<close> throws, because its result goes through the constructor; on an instance
  holding \<open>v < 2^256 - 1\<close> it returns a new instance holding \<open>v + 1\<close>. \<open>increase\<close>
  only reads \<open>this.value\<close>, and \<open>plus\<close> builds a new number, so the instance it is
  called on keeps its value: in the model \<open>increase\<close> is a function of \<open>this\<close> that
  returns the new instance alone.
\<close>

theorem increase_checked:
  "increase \<lparr>val = Finite (2 ^ 256 - 1)\<rparr> = Inl OutOfRange \<and>
   (n < 2 ^ 256 - 1 \<longrightarrow>
      increase \<lparr>val = Finite (rat_of_nat n)\<rparr> = Inr \<lparr>val = Finite (rat_of_nat (n + 1))\<rparr>)"
proof (intro conjI impI)
  from increase_nat [of "2 ^ 256 - 1"]
  show "increase \<lparr>val = Finite (2 ^ 256 - 1)\<rparr> = Inl OutOfRange"
    by simp
next
  assume "n < 2 ^ 256 - 1"
  then have "n + 1 < 2 ^ 256" by simp
  then show "increase \<lparr>val = Finite (rat_of_nat n)\<rparr> =
      Inr \<lparr>val = Finite (rat_of_nat (n + 1))\<rparr>"
    by (simp only: increase_nat if_True)
qed

theorem increase_checked_witness:
  "increase \<lparr>val = Finite 41\<rparr> = Inr \<lparr>val = Finite 42\<rparr> \<and>
   increase \<lparr>val = Finite (2 ^ 256 - 2)\<rparr> = Inr \<lparr>val = Finite (2 ^ 256 - 1)\<rparr> \<and>
   increase \<lparr>val = Finite (2 ^ 256 - 1)\<rparr> = Inl OutOfRange"
  using increase_checked [of 41] increase_checked [of "2 ^ 256 - 2"] by simp

end
